theory Spec2Isabelle
  imports Main
begin

section \<open>The Mayavi pipeline lifecycle: \<open>Source\<close> and \<open>VTKDataSource\<close>\<close>

text \<open>
  A shallow embedding of \<^verbatim>\<open>enthought/mayavi/core/source.py\<close> and
  \<^verbatim>\<open>enthought/mayavi/sources/vtk_data_source.py\<close>.

  Python objects are mutable and their methods may raise after having changed the
  object. A method call is therefore a function from the state before to a pair: the
  exception raised (\<open>None\<close> when the call returns normally) and the state left behind.
  Calls made on collaborators, log entries and notifications are appended to an event
  trace, in program order.
\<close>

subsection \<open>Exceptions, pipeline objects and events\<close>

datatype exn = AttributeError | Raised string

text \<open>The class of a pipeline object that is not a \<open>ModuleManager\<close>.\<close>

datatype klass = FilterK | ModuleK | SourceK | OtherK

text \<open>
  Any \<open>Base\<close> object other than a \<open>ModuleManager\<close>: a filter, a module, another
  source, or something else. Its \<open>start\<close> and \<open>stop\<close> methods are those of an arbitrary
  subclass; they are parameters of the model (\<open>behaviour\<close> below) and may read and
  change \<open>o_state\<close>, the object's own internal state.
\<close>

record pobj =
  oid :: nat
  klass :: klass
  o_scene :: "nat option"
  o_inputs :: "nat list"
  o_state :: nat

record behaviour =
  start_of :: "pobj \<Rightarrow> exn option \<times> pobj"
  stop_of :: "pobj \<Rightarrow> exn option \<times> pobj"

text \<open>
  Modelled from the spec: the class \<open>ModuleManager\<close> is not among the sources. The
  spec gives it the attributes \<open>source\<close>, \<open>scene\<close>, \<open>children\<close> (an ordered sequence of
  modules) and \<open>running\<close>, and a node is running iff \<open>start()\<close> has completed and
  \<open>stop()\<close> has not subsequently completed.
\<close>

record module_manager =
  mm_source :: "nat option"
  mm_scene :: "nat option"
  mm_children :: "pobj list"
  mm_running :: bool

definition ModuleManager :: "nat option \<Rightarrow> nat option \<Rightarrow> module_manager" where
  "ModuleManager src sc =
     \<lparr>mm_source = src, mm_scene = sc, mm_children = [], mm_running = False\<rparr>"

definition mm_start :: "module_manager \<Rightarrow> exn option \<times> module_manager" where
  "mm_start mm = (None, mm\<lparr>mm_running := True\<rparr>)"

definition mm_stop :: "module_manager \<Rightarrow> exn option \<times> module_manager" where
  "mm_stop mm = (None, mm\<lparr>mm_running := False\<rparr>)"

datatype child = Manager module_manager | Object pobj

fun is_module_manager :: "child \<Rightarrow> bool" where
  "is_module_manager (Manager mm) = True"
| "is_module_manager (Object ob) = False"

fun is_filter :: "child \<Rightarrow> bool" where
  "is_filter (Object ob) = (klass ob = FilterK)"
| "is_filter (Manager mm) = False"

fun child_start :: "behaviour \<Rightarrow> child \<Rightarrow> exn option \<times> child" where
  "child_start b (Manager mm) = (case mm_start mm of (r, mm') \<Rightarrow> (r, Manager mm'))"
| "child_start b (Object ob) = (case start_of b ob of (r, ob') \<Rightarrow> (r, Object ob'))"

fun child_stop :: "behaviour \<Rightarrow> child \<Rightarrow> exn option \<times> child" where
  "child_stop b (Manager mm) = (case mm_stop mm of (r, mm') \<Rightarrow> (r, Manager mm'))"
| "child_stop b (Object ob) = (case stop_of b ob of (r, ob') \<Rightarrow> (r, Object ob'))"

fun set_scene :: "nat option \<Rightarrow> child \<Rightarrow> child" where
  "set_scene sc (Manager mm) = Manager (mm\<lparr>mm_scene := sc\<rparr>)"
| "set_scene sc (Object ob) = Object (ob\<lparr>o_scene := sc\<rparr>)"

text \<open>The two roles (\<open>d_type\<close> in the source) and the three attribute kinds (\<open>attr\<close>).\<close>

datatype d_type = Point | Cell

datatype attr = Scalars | Vectors | Tensors

text \<open>
  The trace. \<open>Start_called c\<close> and \<open>Stop_called c\<close> record a call of the method on the
  child \<open>c\<close> (its state before the call); \<open>Exception_logged e\<close> is a call of
  \<open>exception()\<close> in a handler that caught \<open>e\<close>; \<open>Handler_failed e\<close> is the log
  entry of the trait dispatch for a change hook that raised \<open>e\<close>. The others are
  calls on the scene, on the native
  dataset at an address, on the \<open>AssignAttribute\<close> filter, the \<open>data_changed\<close>
  notification, and the steps of state restoration.
\<close>

datatype event =
    Start_called child
  | Stop_called child
  | Exception_logged exn
  | Handler_failed exn
  | Scene_add_child child
  | Set_active nat d_type attr "string option"
  | AA_set_input nat
  | AA_assign string attr d_type
  | AA_update
  | Data_changed
  | Remove_observer nat int
  | Add_observer nat int
  | Messenger_connect nat
  | Set_state_fields
  | Handle_children_state
  | Set_state_children

subsection \<open>\<open>Source\<close>\<close>

record source =
  sid :: nat
  children :: "child list"
  scene :: "nat option"
  running :: bool
  name :: string
  events :: "event list"

text \<open>
  Modelled from the spec: \<open>Base.start\<close> and \<open>Base.stop\<close> (reached through
  \<open>super(Source, self)\<close>) are not among the sources; they set the running state.
\<close>

definition Base_start :: "'a source_scheme \<Rightarrow> exn option \<times> 'a source_scheme" where
  "Base_start s = (None, s\<lparr>running := True\<rparr>)"

definition Base_stop :: "'a source_scheme \<Rightarrow> exn option \<times> 'a source_scheme" where
  "Base_stop s = (None, s\<lparr>running := False\<rparr>)"

text \<open>
  \<^verbatim>\<open>for obj in self.children: try: obj.start() except: exception()\<close>.
  Returns the children as the calls left them and the events of the loop.
\<close>

fun start_all :: "behaviour \<Rightarrow> child list \<Rightarrow> child list \<times> event list" where
  "start_all b [] = ([], [])"
| "start_all b (c # cs) =
     (case child_start b c of
        (r, c') \<Rightarrow>
          (case start_all b cs of
             (cs', ev) \<Rightarrow>
               (c' # cs',
                Start_called c #
                (case r of None \<Rightarrow> [] | Some e \<Rightarrow> [Exception_logged e]) @ ev)))"

text \<open>
  \<^verbatim>\<open>for obj in self.children: obj.stop()\<close>: the first exception ends the loop and
  leaves the remaining children untouched.
\<close>

fun stop_all :: "behaviour \<Rightarrow> child list \<Rightarrow> exn option \<times> child list \<times> event list" where
  "stop_all b [] = (None, [], [])"
| "stop_all b (c # cs) =
     (case child_stop b c of
        (Some e, c') \<Rightarrow> (Some e, c' # cs, [Stop_called c])
      | (None, c') \<Rightarrow>
          (case stop_all b cs of
             (r, cs', ev) \<Rightarrow> (r, c' # cs', Stop_called c # ev)))"

definition start :: "behaviour \<Rightarrow> 'a source_scheme \<Rightarrow> exn option \<times> 'a source_scheme" where
  "start b s =
     (if running s then (None, s)
      else (case start_all b (children s) of
              (cs, ev) \<Rightarrow> Base_start (s\<lparr>children := cs, events := events s @ ev\<rparr>)))"

definition stop :: "behaviour \<Rightarrow> 'a source_scheme \<Rightarrow> exn option \<times> 'a source_scheme" where
  "stop b s =
     (if \<not> running s then (None, s)
      else (case stop_all b (children s) of
              (Some e, cs, ev) \<Rightarrow> (Some e, s\<lparr>children := cs, events := events s @ ev\<rparr>)
            | (None, cs, ev) \<Rightarrow> Base_stop (s\<lparr>children := cs, events := events s @ ev\<rparr>)))"

text \<open>
  The second loop of \<open>_handle_children\<close>: every added object gets the scene of this
  node; a \<open>ModuleManager\<close> gets this node as its source, a filter gets it as an input;
  when this node is running the object is started, a failure being caught and logged.
\<close>

fun attach :: "nat \<Rightarrow> child \<Rightarrow> child" where
  "attach i (Manager mm) = Manager (mm\<lparr>mm_source := Some i\<rparr>)"
| "attach i (Object ob) =
     (if klass ob = FilterK then Object (ob\<lparr>o_inputs := o_inputs ob @ [i]\<rparr>) else Object ob)"

fun add_all :: "behaviour \<Rightarrow> nat \<Rightarrow> nat option \<Rightarrow> bool \<Rightarrow> child list \<Rightarrow> child list \<times> event list"
  where
  "add_all b i sc run [] = ([], [])"
| "add_all b i sc run (c # cs) =
     (let c1 = attach i (set_scene sc c) in
      case (if run then (case child_start b c1 of
                           (r, c2) \<Rightarrow>
                             (c2, Start_called c1 #
                                  (case r of None \<Rightarrow> [] | Some e \<Rightarrow> [Exception_logged e])))
            else (c1, [])) of
        (c', ev1) \<Rightarrow>
          (case add_all b i sc run cs of
             (cs', ev) \<Rightarrow> (c' # cs', ev1 @ ev)))"

text \<open>
  \<open>_handle_children(removed, added)\<close>. The objects are shared with the caller, so the
  function returns them as the calls left them, next to the node.
\<close>

definition handle_children ::
  "behaviour \<Rightarrow> child list \<Rightarrow> child list \<Rightarrow> 'a source_scheme \<Rightarrow>
     exn option \<times> child list \<times> child list \<times> 'a source_scheme" where
  "handle_children b removed added s =
     (case stop_all b removed of
        (Some e, removed', ev) \<Rightarrow> (Some e, removed', added, s\<lparr>events := events s @ ev\<rparr>)
      | (None, removed', ev) \<Rightarrow>
          (case add_all b (sid s) (scene s) (running s) added of
             (added', ev') \<Rightarrow> (None, removed', added', s\<lparr>events := events s @ ev @ ev'\<rparr>)))"

text \<open>
  Modelled from the spec: the reactive attribute framework is not among the sources.
  It runs a change hook when a trait is assigned or a container trait is changed, and
  the triggering statement returns once the hook has run. An exception that leaves a
  change hook stops the hook; the dispatch logs it and the triggering statement
  returns normally.
\<close>

definition dispatch :: "exn option \<Rightarrow> 'a source_scheme \<Rightarrow> 'a source_scheme" where
  "dispatch r s =
     (case r of None \<Rightarrow> s | Some e \<Rightarrow> s\<lparr>events := events s @ [Handler_failed e]\<rparr>)"

text \<open>
  The container operations on \<open>children\<close>. The container is changed first, then the
  hook runs (\<open>_children_changed(old, new)\<close> for a wholesale replacement,
  \<open>_children_items_changed\<close> for an item-wise change); the added objects are members of
  the container, so what the hook did to them shows there. The operations on the
  container return the removed objects as the hook left them.
\<close>

definition children_assign ::
  "behaviour \<Rightarrow> child list \<Rightarrow> 'a source_scheme \<Rightarrow> child list \<times> 'a source_scheme" where
  "children_assign b new s =
     (case handle_children b (children s) new (s\<lparr>children := new\<rparr>) of
        (r, old', new', s') \<Rightarrow> (old', dispatch r (s'\<lparr>children := new'\<rparr>)))"

definition children_append :: "behaviour \<Rightarrow> child \<Rightarrow> 'a source_scheme \<Rightarrow> 'a source_scheme" where
  "children_append b c s =
     (case handle_children b [] [c] (s\<lparr>children := children s @ [c]\<rparr>) of
        (r, removed', added', s') \<Rightarrow> dispatch r (s'\<lparr>children := children s @ added'\<rparr>))"

definition children_remove ::
  "behaviour \<Rightarrow> nat \<Rightarrow> 'a source_scheme \<Rightarrow> exn option \<times> child list \<times> 'a source_scheme" where
  "children_remove b i s =
     (if i < length (children s)
      then (case handle_children b [children s ! i] []
                   (s\<lparr>children := take i (children s) @ drop (Suc i) (children s)\<rparr>) of
              (r, removed', added', s') \<Rightarrow> (None, removed', dispatch r s'))
      else (Some (Raised ''IndexError''), [], s))"

text \<open>
  \<open>add_module\<close>. The loop keeps the last \<open>ModuleManager\<close> among the children;
  \<open>scan_mm\<close> returns its index.
\<close>

fun scan_mm :: "child list \<Rightarrow> nat \<Rightarrow> nat option \<Rightarrow> nat option" where
  "scan_mm [] i mm = mm"
| "scan_mm (c # cs) i mm = scan_mm cs (Suc i) (if is_module_manager c then Some i else mm)"

fun mm_append :: "pobj \<Rightarrow> child \<Rightarrow> child" where
  "mm_append m (Manager mm) = Manager (mm\<lparr>mm_children := mm_children mm @ [m]\<rparr>)"
| "mm_append m (Object ob) = Object ob"

definition add_module ::
  "behaviour \<Rightarrow> pobj \<Rightarrow> 'a source_scheme \<Rightarrow> exn option \<times> 'a source_scheme" where
  "add_module b m s =
     (case scan_mm (children s) 0 None of
        Some i \<Rightarrow> (None, s\<lparr>children := (children s)[i := mm_append m (children s ! i)]\<rparr>)
      | None \<Rightarrow>
          (let mm = ModuleManager (Some (sid s)) (scene s) in
           case (if running s
                 then (case mm_start mm of
                         (r, mm') \<Rightarrow> (r, mm', s\<lparr>events := events s @ [Start_called (Manager mm)]\<rparr>))
                 else (None, mm, s)) of
             (Some e, mm1, s1) \<Rightarrow> (Some e, s1)
           | (None, mm1, s1) \<Rightarrow>
               (let s2 = children_append b (Manager mm1) s1;
                    i = length (children s2) - 1
                in (None, s2\<lparr>children := (children s2)[i := mm_append m (children s2 ! i)]\<rparr>))))"

text \<open>\<open>add_module\<close> called once for each module of a list, in order.\<close>

fun add_modules ::
  "behaviour \<Rightarrow> pobj list \<Rightarrow> 'a source_scheme \<Rightarrow> exn option \<times> 'a source_scheme" where
  "add_modules b [] s = (None, s)"
| "add_modules b (m # ms) s =
     (case add_module b m s of
        (Some e, s') \<Rightarrow> (Some e, s')
      | (None, s') \<Rightarrow> add_modules b ms s')"

text \<open>
  \<open>add_child\<close>. The classes of the objects are not part of the model, so the test
  \<^verbatim>\<open>isinstance(child, self.__class__)\<close> is the parameter \<open>own_class\<close>. Such a child
  goes to the scene (an external collaborator: the call is recorded); without a scene
  the attribute access fails.
\<close>

definition add_child ::
  "behaviour \<Rightarrow> (child \<Rightarrow> bool) \<Rightarrow> child \<Rightarrow> 'a source_scheme \<Rightarrow>
     exn option \<times> 'a source_scheme" where
  "add_child b own_class c s =
     (if is_filter c then (None, children_append b c s)
      else if own_class c
      then (case scene s of
              None \<Rightarrow> (Some AttributeError, s)
            | Some sc \<Rightarrow> (None, s\<lparr>events := events s @ [Scene_add_child c]\<rparr>))
      else (case c of
              Object ob \<Rightarrow>
                (if klass ob = ModuleK then add_module b ob s
                 else (None, children_append b c s))
            | Manager mm \<Rightarrow> (None, children_append b c s)))"

text \<open>Two calls in a row: the second is made only when the first returned.\<close>

definition twice :: "('s \<Rightarrow> exn option \<times> 's) \<Rightarrow> 's \<Rightarrow> exn option \<times> 's" where
  "twice f s = (case f s of (Some e, s') \<Rightarrow> (Some e, s') | (None, s') \<Rightarrow> f s')"

subsection \<open>The native dataset and the \<open>AssignAttribute\<close> filter\<close>

text \<open>
  Modelled from the spec: the wrapped native dataset is an external collaborator. It
  exposes, for each role, an attribute table with the array names of each kind and an
  operation "set active kind (name)", and a modification notification that is
  subscribed to and unsubscribed from by token. \<open>arrays\<close> holds the names that
  \<open>get_all_attributes\<close> (of \<^verbatim>\<open>vtk_xml_file_reader\<close>, not among the sources) reports;
  \<open>observers\<close> holds the tokens of the live subscriptions, \<open>next_tag\<close> the next token.
\<close>

record dataset =
  type_name :: string
  arrays :: "d_type \<Rightarrow> attr \<Rightarrow> string list"
  active :: "d_type \<Rightarrow> attr \<Rightarrow> string option"
  observers :: "int list"
  next_tag :: int

definition get_all_attributes :: "dataset \<Rightarrow> (attr \<Rightarrow> string list) \<times> (attr \<Rightarrow> string list)"
  where
  "get_all_attributes d = (arrays d Point, arrays d Cell)"

definition set_active :: "d_type \<Rightarrow> attr \<Rightarrow> string option \<Rightarrow> dataset \<Rightarrow> dataset" where
  "set_active t a v d = d\<lparr>active := (active d)(t := (active d t)(a := v))\<rparr>"

definition add_observer :: "dataset \<Rightarrow> int \<times> dataset" where
  "add_observer d =
     (next_tag d, d\<lparr>observers := observers d @ [next_tag d], next_tag := next_tag d + 1\<rparr>)"

definition remove_observer :: "int \<Rightarrow> dataset \<Rightarrow> dataset" where
  "remove_observer t d = d\<lparr>observers := removeAll t (observers d)\<rparr>"

text \<open>
  Modelled from the spec: the \<open>AssignAttribute\<close> primitive holds its input and the
  last assignment \<open>assign(name, kind, role)\<close>; its output is one fixed object.
\<close>

record assign_attribute =
  aa_input :: "nat option"
  aa_assigned :: "(string \<times> attr \<times> d_type) option"

datatype port = Assign_attribute_output

subsection \<open>\<open>VTKDataSource\<close>\<close>

text \<open>
  \<open>names t a\<close> is the selector \<^verbatim>\<open><t>_<a>_name\<close> and \<open>lists t a\<close> its candidate list
  \<^verbatim>\<open>_<t>_<a>_list\<close>, which the source reaches through formatted attribute names.
  \<open>store\<close> maps the address of a native dataset to its state; \<open>data\<close> is an address.
\<close>

record vtk_data_source = source +
  data :: "nat option"
  names :: "d_type \<Rightarrow> attr \<Rightarrow> string"
  lists :: "d_type \<Rightarrow> attr \<Rightarrow> string list"
  assigner :: assign_attribute
  first :: bool
  observer_id :: int
  outputs :: "port list"
  store :: "nat \<Rightarrow> dataset"
  next_addr :: nat

text \<open>A new instance: the defaults of the trait declarations.\<close>

definition VTKDataSource :: "nat \<Rightarrow> (nat \<Rightarrow> dataset) \<Rightarrow> nat \<Rightarrow> vtk_data_source" where
  "VTKDataSource i h n =
     \<lparr>sid = i, children = [], scene = None, running = False, name = [], events = [],
      data = None, names = (\<lambda>t a. []), lists = (\<lambda>t a. []),
      assigner = \<lparr>aa_input = None, aa_assigned = None\<rparr>,
      first = True, observer_id = - 1, outputs = [], store = h, next_addr = n\<rparr>"

text \<open>
  \<open>_set_data_name(data_type, attr_type, value)\<close>, the body of the six selector change
  hooks. Without a dataset the attribute access on \<open>None\<close> raises.
\<close>

definition set_data_name ::
  "attr \<Rightarrow> d_type \<Rightarrow> string option \<Rightarrow> vtk_data_source \<Rightarrow> exn option \<times> vtk_data_source" where
  "set_data_name a t value s =
     (case value of
        None \<Rightarrow> (None, s)
      | Some v \<Rightarrow>
          (case data s of
             None \<Rightarrow> (Some AttributeError, s)
           | Some addr \<Rightarrow>
               (if length v = 0
                then (None, s\<lparr>store := (store s)(addr := set_active t a None (store s addr)),
                               events := events s @ [Set_active addr t a None, Data_changed]\<rparr>)
                else (None, s\<lparr>store := (store s)(addr := set_active t a (Some v) (store s addr)),
                               assigner := (assigner s)\<lparr>aa_assigned := Some (v, a, t)\<rparr>,
                               events := events s @
                                 [Set_active addr t a (Some v), AA_assign v a t, AA_update,
                                  Data_changed]\<rparr>))))"

text \<open>
  Modelled from the spec: assigning a selector stores the value and, when the value
  changed, runs the change hook with the new value, under the trait dispatch.
\<close>

definition select_name :: "d_type \<Rightarrow> attr \<Rightarrow> string \<Rightarrow> vtk_data_source \<Rightarrow> vtk_data_source" where
  "select_name t a v s =
     (if names s t a = v then s
      else (case set_data_name a t (Some v)
                   (s\<lparr>names := (names s)(t := (names s t)(a := v))\<rparr>) of
              (r, s') \<Rightarrow> dispatch r s'))"

text \<open>
  Modelled from the spec: the selectors are \<open>DEnum\<close> traits bound to their candidate
  lists (\<^verbatim>\<open>values_name='_point_scalars_list'\<close> and so on); the class \<open>DEnum\<close> is not
  among the sources. A selector is a name drawn from its candidate list: when the list
  is assigned and the selector is not among the new candidates, the selector is
  assigned the first candidate, which runs its change hook.
\<close>

definition set_list ::
  "d_type \<Rightarrow> attr \<Rightarrow> string list \<Rightarrow> vtk_data_source \<Rightarrow> vtk_data_source" where
  "set_list t a values s =
     (let s0 = s\<lparr>lists := (lists s)(t := (lists s t)(a := values))\<rparr>
      in if values = [] \<or> names s0 t a \<in> set values then s0
         else select_name t a (hd values) s0)"

text \<open>
  One round of the loop \<^verbatim>\<open>for attr in attrs\<close> of \<open>_setup_data_traits\<close>, for the
  dataset at address \<open>addr\<close>. The candidate list is assigned with \<open>setattr\<close>, which
  goes through the binding of the selector to its list. At the end of the round the
  selector is stored without notification (\<open>trait_change_notify=False\<close>), so no
  change hook runs there.
\<close>

definition setup_attr ::
  "nat \<Rightarrow> (attr \<Rightarrow> string list) \<Rightarrow> d_type \<Rightarrow> attr \<Rightarrow> vtk_data_source \<Rightarrow> vtk_data_source"
  where
  "setup_attr addr attributes t a s =
     (let values = attributes a @ [[]];
          s1 = set_list t a values s
      in if length values > 1
         then (let default0 = names s1 t a;
                   default = (if first s1 \<and> length default0 = 0 then values ! 0 else default0)
               in s1\<lparr>store := (store s1)(addr := set_active t a (Some default) (store s1 addr)),
                     assigner := (assigner s1)\<lparr>aa_assigned := Some (default, a, t)\<rparr>,
                     events := events s1 @
                       [Set_active addr t a (Some default), AA_assign default a t, AA_update],
                     names := (names s1)(t := (names s1 t)(a := default))\<rparr>)
         else s1)"

definition setup_data_traits ::
  "nat \<Rightarrow> (attr \<Rightarrow> string list) \<Rightarrow> d_type \<Rightarrow> vtk_data_source \<Rightarrow> vtk_data_source" where
  "setup_data_traits addr attributes t s =
     fold (setup_attr addr attributes t) [Scalars, Vectors, Tensors] s"

definition update_data :: "vtk_data_source \<Rightarrow> vtk_data_source" where
  "update_data s =
     (case data s of
        None \<Rightarrow> s
      | Some addr \<Rightarrow>
          (case get_all_attributes (store s addr) of
             (pnt_attr, cell_attr) \<Rightarrow>
               (let s1 = setup_data_traits addr pnt_attr Point s;
                    s2 = setup_data_traits addr cell_attr Cell s1;
                    s3 = (if first s2 then s2\<lparr>first := False\<rparr> else s2)
                in s3\<lparr>events := events s3 @ [Data_changed]\<rparr>)))"

text \<open>\<^verbatim>\<open>'[Hidden]' in self.name\<close>: substring containment.\<close>

fun is_prefix :: "string \<Rightarrow> string \<Rightarrow> bool" where
  "is_prefix [] ys = True"
| "is_prefix (x # xs) [] = False"
| "is_prefix (x # xs) (y # ys) = (x = y \<and> is_prefix xs ys)"

fun contains :: "string \<Rightarrow> string \<Rightarrow> bool" where
  "contains sub [] = is_prefix sub []"
| "contains sub (y # ys) = (is_prefix sub (y # ys) \<or> contains sub ys)"

definition get_name :: "vtk_data_source \<Rightarrow> string" where
  "get_name s =
     (let ret = (case data s of
                   None \<Rightarrow> ''VTK Data (uninitialized)''
                 | Some addr \<Rightarrow> ''VTK Data ('' @ type_name (store s addr) @ '')'')
      in if contains ''[Hidden]'' (name s) then ret @ '' [Hidden]'' else ret)"

text \<open>
  \<open>_data_changed(old, new)\<close>, the hook of the \<open>data\<close> trait; it runs after \<open>data\<close>
  has been set to \<open>new\<close>.
\<close>

definition data_changed :: "nat option \<Rightarrow> nat \<Rightarrow> vtk_data_source \<Rightarrow> vtk_data_source" where
  "data_changed old new s =
     (let s1 = s\<lparr>assigner := (assigner s)\<lparr>aa_input := Some new\<rparr>,
                 events := events s @ [AA_set_input new]\<rparr>;
          s2 = update_data s1;
          s3 = s2\<lparr>outputs := [Assign_attribute_output], events := events s2 @ [Data_changed]\<rparr>;
          s4 = (case old of
                  None \<Rightarrow> s3
                | Some ad \<Rightarrow>
                    s3\<lparr>store := (store s3)(ad := remove_observer (observer_id s3) (store s3 ad)),
                       events := events s3 @ [Remove_observer ad (observer_id s3)]\<rparr>);
          s5 = (case add_observer (store s4 new) of
                  (tag, d) \<Rightarrow>
                    s4\<lparr>store := (store s4)(new := d), observer_id := tag,
                       events := events s4 @ [Add_observer new tag, Messenger_connect new]\<rparr>)
      in s5\<lparr>name := get_name s5\<rparr>)"

text \<open>
  Modelled from the spec: assigning to the \<open>data\<close> trait. The framework stores the new
  value and runs the hook with the old and the new value; assigning the object that
  is already there changes nothing and runs no hook.
\<close>

definition set_data :: "nat \<Rightarrow> vtk_data_source \<Rightarrow> vtk_data_source" where
  "set_data new s =
     (if data s = Some new then s else data_changed (data s) new (s\<lparr>data := Some new\<rparr>))"

definition vtk_start :: "behaviour \<Rightarrow> vtk_data_source \<Rightarrow> exn option \<times> vtk_data_source" where
  "vtk_start b s = (if running s then (None, s) else start b (update_data s))"

subsection \<open>Restoring a persisted \<open>VTKDataSource\<close>\<close>

text \<open>
  The persisted record: the compressed dataset (absent without a dataset), the
  non-collection fields (here the name) and the children.
\<close>

record pure_state =
  st_data :: "string option"
  st_name :: string
  st_children :: "child list"

text \<open>
  Modelled from the spec: \<open>set_state\<close> and \<open>handle_children_state\<close> are not among
  the sources. \<open>set_state\<close> with \<^verbatim>\<open>ignore=['children', 'data']\<close> restores the
  non-collection fields; \<open>handle_children_state\<close> attaches each restored child
  through the structural-change hook; the last \<open>set_state\<close> sets the children's own
  state. Each is recorded in the trace.
\<close>

definition set_state_fields :: "pure_state \<Rightarrow> vtk_data_source \<Rightarrow> vtk_data_source" where
  "set_state_fields st s = s\<lparr>name := st_name st, events := events s @ [Set_state_fields]\<rparr>"

fun attach_restored :: "behaviour \<Rightarrow> child list \<Rightarrow> vtk_data_source \<Rightarrow> vtk_data_source" where
  "attach_restored b [] s = s"
| "attach_restored b (c # cs) s = attach_restored b cs (children_append b c s)"

definition handle_children_state ::
  "behaviour \<Rightarrow> child list \<Rightarrow> vtk_data_source \<Rightarrow> vtk_data_source" where
  "handle_children_state b kids s =
     attach_restored b kids (s\<lparr>events := events s @ [Handle_children_state]\<rparr>)"

text \<open>
  \<open>__set_pure_state__\<close>. \<open>reader\<close> stands for \<open>gunzip_string\<close> followed by the native
  \<open>DataSetReader\<close>: it yields the dataset, or nothing when the buffer cannot be read.
  The dataset the reader produced is a new object, at the address \<open>next_addr\<close>.
\<close>

definition set_pure_state ::
  "(string \<Rightarrow> dataset option) \<Rightarrow> behaviour \<Rightarrow> pure_state \<Rightarrow> vtk_data_source \<Rightarrow>
     exn option \<times> vtk_data_source" where
  "set_pure_state reader b st s =
     (case (case st_data st of
              None \<Rightarrow> (None, s)
            | Some z \<Rightarrow>
                (case reader z of
                   None \<Rightarrow> (Some (Raised ''reader''), s)
                 | Some d \<Rightarrow>
                     (None, set_data (next_addr s)
                              (s\<lparr>store := (store s)(next_addr s := d),
                                 next_addr := Suc (next_addr s)\<rparr>)))) of
        (Some e, s1) \<Rightarrow> (Some e, s1)
      | (None, s1) \<Rightarrow>
          (let s2 = handle_children_state b (st_children st) (set_state_fields st s1)
           in (None, s2\<lparr>events := events s2 @ [Set_state_children]\<rparr>)))"

subsection \<open>Notions used in the statements\<close>

text \<open>
  What the loop of \<open>start\<close> does for one child: the call, and the log entry when the
  call raised.
\<close>

definition start_trace :: "behaviour \<Rightarrow> child \<Rightarrow> event list" where
  "start_trace b c =
     Start_called c # (case fst (child_start b c) of None \<Rightarrow> [] | Some e \<Rightarrow> [Exception_logged e])"

text \<open>The \<open>ModuleManager\<close> children of a list, in order.\<close>

fun managers :: "child list \<Rightarrow> module_manager list" where
  "managers [] = []"
| "managers (Manager mm # cs) = mm # managers cs"
| "managers (Object ob # cs) = managers cs"

text \<open>
  The calls of the selector change hook for the value \<open>v\<close> on the dataset at \<open>addr\<close>.
\<close>

definition hook_events :: "nat \<Rightarrow> attr \<Rightarrow> d_type \<Rightarrow> string \<Rightarrow> event list" where
  "hook_events addr a t v =
     (if v = [] then [Set_active addr t a None, Data_changed]
      else [Set_active addr t a (Some v), AA_assign v a t, AA_update, Data_changed])"

text \<open>
  The selector of a pair is not among the candidates that a pass discovers (the empty
  name always is one): the binding of selector to list resets it, to the first
  candidate.
\<close>

definition reset :: "vtk_data_source \<Rightarrow> nat \<Rightarrow> d_type \<Rightarrow> attr \<Rightarrow> bool" where
  "reset s addr t a =
     (names s t a \<noteq> [] \<and> names s t a \<notin> set (arrays (store s addr) t a))"

definition bound_name :: "vtk_data_source \<Rightarrow> nat \<Rightarrow> d_type \<Rightarrow> attr \<Rightarrow> string" where
  "bound_name s addr t a =
     (if reset s addr t a then hd (arrays (store s addr) t a @ [[]]) else names s t a)"

text \<open>
  The value that a pass gives to the selector of a pair, and the calls that it makes
  for the pair.
\<close>

definition default_name :: "vtk_data_source \<Rightarrow> nat \<Rightarrow> d_type \<Rightarrow> attr \<Rightarrow> string" where
  "default_name s addr t a =
     (if arrays (store s addr) t a \<noteq> [] \<and> first s \<and> bound_name s addr t a = []
      then hd (arrays (store s addr) t a) else bound_name s addr t a)"

definition pair_events :: "vtk_data_source \<Rightarrow> nat \<Rightarrow> d_type \<Rightarrow> attr \<Rightarrow> event list" where
  "pair_events s addr t a =
     (if reset s addr t a then hook_events addr a t (hd (arrays (store s addr) t a @ [[]]))
      else []) @
     (if arrays (store s addr) t a = [] then []
      else [Set_active addr t a (Some (default_name s addr t a)),
            AA_assign (default_name s addr t a) a t, AA_update])"

text \<open>
  The same values and calls, in terms of the attribute table that the pass has read
  from the dataset.
\<close>

definition kept :: "(attr \<Rightarrow> string list) \<Rightarrow> d_type \<Rightarrow> attr \<Rightarrow> vtk_data_source \<Rightarrow> string" where
  "kept at t a s =
     (if names s t a \<noteq> [] \<and> names s t a \<notin> set (at a) then hd (at a @ [[]]) else names s t a)"

definition final :: "(attr \<Rightarrow> string list) \<Rightarrow> d_type \<Rightarrow> attr \<Rightarrow> vtk_data_source \<Rightarrow> string" where
  "final at t a s =
     (if at a \<noteq> [] \<and> first s \<and> kept at t a s = [] then hd (at a) else kept at t a s)"

definition kind_events ::
  "nat \<Rightarrow> (attr \<Rightarrow> string list) \<Rightarrow> d_type \<Rightarrow> vtk_data_source \<Rightarrow> attr \<Rightarrow> event list" where
  "kind_events addr at t s a =
     (if names s t a \<noteq> [] \<and> names s t a \<notin> set (at a)
      then hook_events addr a t (hd (at a @ [[]])) else []) @
     (if at a = [] then []
      else [Set_active addr t a (Some (final at t a s)), AA_assign (final at t a s) a t,
            AA_update])"

text \<open>
  The native token allocator is sound: the token that a dataset hands out next is
  above those of its live subscriptions.
\<close>

definition tags_ok :: "(nat \<Rightarrow> dataset) \<Rightarrow> bool" where
  "tags_ok h = (\<forall>a. \<forall>t\<in>set (observers (h a)). t < next_tag (h a))"

text \<open>
  The invariant of the subscriptions of an object, relative to the store \<open>h\<close> at its
  creation.
\<close>

definition subscribed :: "(nat \<Rightarrow> dataset) \<Rightarrow> vtk_data_source \<Rightarrow> bool" where
  "subscribed h s =
     ((\<forall>a. next_tag (h a) \<le> next_tag (store s a)) \<and>
      (\<forall>a. observers (store s a) =
            observers (h a) @ (if data s = Some a then [observer_id s] else [])) \<and>
      (\<forall>a. data s = Some a \<longrightarrow>
            next_tag (h a) \<le> observer_id s \<and> observer_id s < next_tag (store s a)))"



text \<open>The events that attaching a child can produce.\<close>

fun is_child_event :: "event \<Rightarrow> bool" where
  "is_child_event (Start_called c) = True"
| "is_child_event (Exception_logged e) = True"
| "is_child_event e = False"

text \<open>\<open>precedes x y xs\<close>: some occurrence of \<open>x\<close> in \<open>xs\<close> has a \<open>y\<close> after it.\<close>

fun precedes :: "'a \<Rightarrow> 'a \<Rightarrow> 'a list \<Rightarrow> bool" where
  "precedes x y [] = False"
| "precedes x y (z # zs) = ((z = x \<and> y \<in> set zs) \<or> precedes x y zs)"

subsection \<open>Example objects\<close>

text \<open>
  Children whose \<open>start\<close> and \<open>stop\<close> raise in state \<open>0\<close> and succeed otherwise, a
  node, a dataset with two point scalar arrays and an active cell-vector attribute, an
  object before its first pass and one at a later pass, and a persisted record.
\<close>

definition flaky :: behaviour where
  "flaky =
     \<lparr>start_of = (\<lambda>ob. if o_state ob = 0 then (Some (Raised ''start failed''), ob)
                       else (None, ob\<lparr>o_state := 2\<rparr>)),
      stop_of = (\<lambda>ob. if o_state ob = 0 then (Some (Raised ''stop failed''), ob)
                      else (None, ob\<lparr>o_state := 3\<rparr>))\<rparr>"

definition filter_obj :: "nat \<Rightarrow> nat \<Rightarrow> pobj" where
  "filter_obj i st = \<lparr>oid = i, klass = FilterK, o_scene = None, o_inputs = [], o_state = st\<rparr>"

definition module_obj :: "nat \<Rightarrow> pobj" where
  "module_obj i = \<lparr>oid = i, klass = ModuleK, o_scene = None, o_inputs = [], o_state = 1\<rparr>"

definition node :: "bool \<Rightarrow> child list \<Rightarrow> source" where
  "node run cs =
     \<lparr>sid = 0, children = cs, scene = Some 7, running = run, name = ''src'', events = []\<rparr>"

definition demo_ds :: dataset where
  "demo_ds =
     \<lparr>type_name = ''PolyData'',
      arrays = (\<lambda>t a. if t = Point \<and> a = Scalars then [''temperature'', ''pressure''] else []),
      active = (\<lambda>t a. if t = Cell \<and> a = Vectors then Some ''velocity'' else None),
      observers = [], next_tag = 1\<rparr>"

definition fresh :: vtk_data_source where
  "fresh = VTKDataSource 0 (\<lambda>a. demo_ds) 5"



definition demo_reader :: "string \<Rightarrow> dataset option" where
  "demo_reader z = (if z = [] then None else Some demo_ds)"

definition demo_state :: pure_state where
  "demo_state = \<lparr>st_data = Some ''gz'', st_name = ''my data'',
                  st_children = [Object (filter_obj 1 1)]\<rparr>"

section \<open>The lifecycle of \<open>Source\<close>\<close>

lemma start_all_children: "fst (start_all b cs) = map (\<lambda>c. snd (child_start b c)) cs"
  by (induction cs) (auto split: prod.splits)

lemma start_all_events: "snd (start_all b cs) = concat (map (start_trace b) cs)"
  by (induction cs) (auto simp: start_trace_def split: prod.splits option.splits)

text \<open>
  Claim C1. For every node that is not running and every list of children, \<open>start\<close>
  returns normally and leaves the node running; every child has had its \<open>start\<close>
  called, in the order of the list, whatever the earlier children did; an exception
  raised by a child is logged through \<open>exception()\<close> right after that child's call and
  is not passed on.
\<close>

theorem start_starts_every_child:
  assumes "\<not> running s"
  shows "start b s =
           (None, s\<lparr>children := map (\<lambda>c. snd (child_start b c)) (children s),
                    events := events s @ concat (map (start_trace b) (children s)),
                    running := True\<rparr>)"
proof -
  obtain cs ev where se: "start_all b (children s) = (cs, ev)"
    by (cases "start_all b (children s)")
  have "cs = map (\<lambda>c. snd (child_start b c)) (children s)"
    using start_all_children [of b "children s"] se by simp
  moreover have "ev = concat (map (start_trace b) (children s))"
    using start_all_events [of b "children s"] se by simp
  ultimately show ?thesis
    using assms se by (simp add: start_def Base_start_def)
qed

lemma stop_all_ok:
  "\<forall>x\<in>set cs. fst (child_stop b x) = None \<Longrightarrow>
   stop_all b cs = (None, map (\<lambda>c. snd (child_stop b c)) cs, map Stop_called cs)"
  by (induction cs) (auto split: prod.splits option.splits)

lemma stop_all_fails:
  "\<forall>x\<in>set pre. fst (child_stop b x) = None \<Longrightarrow> fst (child_stop b c) = Some e \<Longrightarrow>
   stop_all b (pre @ c # post) =
     (Some e, map (\<lambda>c. snd (child_stop b c)) pre @ snd (child_stop b c) # post,
      map Stop_called pre @ [Stop_called c])"
  by (induction pre) (auto split: prod.splits option.splits)

text \<open>
  Claim C6. For every running node, \<open>stop\<close> stops the children in the order of the
  list and catches nothing: when \<open>c\<close> is the first child whose \<open>stop\<close> raises, the
  children before it have been stopped, the exception of \<open>c\<close> reaches the caller, the
  children after \<open>c\<close> are not called, and the node is still running. When no child
  raises, all are stopped and the node is not running.
\<close>

theorem stop_propagates:
  "(running s \<and> children s = pre @ c # post \<and> (\<forall>x\<in>set pre. fst (child_stop b x) = None) \<and>
      fst (child_stop b c) = Some e \<longrightarrow>
    stop b s =
      (Some e, s\<lparr>children := map (\<lambda>c. snd (child_stop b c)) pre @ snd (child_stop b c) # post,
                 events := events s @ map Stop_called pre @ [Stop_called c]\<rparr>) \<and>
    running (snd (stop b s))) \<and>
   (running s \<and> (\<forall>x\<in>set (children s). fst (child_stop b x) = None) \<longrightarrow>
    stop b s =
      (None, s\<lparr>children := map (\<lambda>c. snd (child_stop b c)) (children s),
                events := events s @ map Stop_called (children s),
                running := False\<rparr>))"
  by (auto simp: stop_def Base_stop_def stop_all_ok stop_all_fails)

lemma start_running: "running s \<Longrightarrow> start b s = (None, s)"
  by (simp add: start_def)

lemma stop_not_running: "\<not> running s \<Longrightarrow> stop b s = (None, s)"
  by (simp add: stop_def)

lemma start_result_running: "fst (start b s) = None \<and> running (snd (start b s))"
  by (auto simp: start_def Base_start_def split: prod.splits)

lemma stop_result: "fst (stop b s) = None \<Longrightarrow> \<not> running (snd (stop b s))"
  by (auto simp: stop_def Base_stop_def split: prod.splits option.splits if_splits)

text \<open>
  Claim C5. \<open>start\<close> twice in a row leaves the state that one call leaves, and so does
  \<open>stop\<close>; \<open>start\<close> does nothing on a running node and \<open>stop\<close> nothing on a node
  that is not running. After \<open>start\<close> the node runs, so a second call does nothing;
  after a \<open>stop\<close> that returned the node does not run, so a second call does
  nothing.
\<close>

theorem start_stop_idempotent:
  "twice (start b) s = start b s \<and> twice (stop b) s = stop b s \<and>
   (running s \<longrightarrow> start b s = (None, s)) \<and>
   (\<not> running s \<longrightarrow> stop b s = (None, s)) \<and>
   start b (snd (start b s)) = (None, snd (start b s)) \<and>
   (fst (stop b s) = None \<longrightarrow> stop b (snd (stop b s)) = (None, snd (stop b s)))"
proof -
  have a: "twice (start b) s = start b s"
    using start_result_running [of b s] start_running [of "snd (start b s)" b]
    by (cases "start b s") (auto simp: twice_def)
  have c: "twice (stop b) s = stop b s"
    using stop_result [of b s] stop_not_running [of "snd (stop b s)" b]
    by (cases "stop b s") (auto simp: twice_def split: option.splits)
  show ?thesis
    using a c start_running stop_not_running start_result_running stop_result by blast
qed

text \<open>
  Claim C7, as amended. The structural-change hook calls \<open>stop\<close> on the removed
  children in order, whatever the running state of the parent: every removed child
  \<open>c\<close> such that no removed child before it raised is stopped. When the \<open>stop\<close> of
  \<open>c\<close> raises, the exception is passed on, the removed children after \<open>c\<close> are not
  stopped and the added children are not processed.
\<close>

theorem handle_children_removed:
  assumes "\<forall>x\<in>set pre. fst (child_stop b x) = None" and "removed = pre @ c # post"
  shows "case handle_children b removed added s of
           (r, removed', added', s') \<Rightarrow>
             take (Suc (length pre)) removed' = map (\<lambda>c. snd (child_stop b c)) (pre @ [c]) \<and>
             take (Suc (length pre)) (drop (length (events s)) (events s')) =
               map Stop_called (pre @ [c]) \<and>
             (\<forall>e. fst (child_stop b c) = Some e \<longrightarrow>
                r = Some e \<and> drop (Suc (length pre)) removed' = post \<and> added' = added \<and>
                s' = s\<lparr>events := events s @ map Stop_called (pre @ [c])\<rparr>)"
proof (cases "fst (child_stop b c)")
  case (Some e)
  then show ?thesis
    using assms stop_all_fails [of pre b c e post] by (simp add: handle_children_def)
next
  case None
  obtain r cs ev where sa: "stop_all b post = (r, cs, ev)"
    by (cases "stop_all b post") auto
  have "stop_all b (pre @ c # post) =
          (r, map (\<lambda>c. snd (child_stop b c)) (pre @ [c]) @ cs, map Stop_called (pre @ [c]) @ ev)"
    using assms(1) None sa by (induction pre) (auto split: prod.splits option.splits)
  then show ?thesis
    using assms(2) None
    by (cases r) (auto simp: handle_children_def split: prod.splits)
qed

lemma scan_mm_none: "managers cs = [] \<Longrightarrow> scan_mm cs i r = r"
  by (induction cs i r rule: scan_mm.induct) (auto elim: managers.elims)

lemma scan_mm_last: "managers cs = [] \<Longrightarrow> scan_mm (cs @ [Manager mm]) i r = Some (i + length cs)"
  by (induction cs i r rule: scan_mm.induct) (auto elim: managers.elims)

lemma managers_append: "managers (xs @ ys) = managers xs @ managers ys"
  by (induction xs rule: managers.induct) auto

lemma add_module_existing:
  "managers cs = [] \<Longrightarrow> children s = cs @ [Manager mm] \<Longrightarrow>
   add_module b m s = (None, s\<lparr>children := cs @ [Manager (mm\<lparr>mm_children := mm_children mm @ [m]\<rparr>)]\<rparr>)"
  using scan_mm_last [of cs mm 0 None] by (simp add: add_module_def)

lemma add_modules_existing:
  "managers cs = [] \<Longrightarrow> children s = cs @ [Manager mm] \<Longrightarrow>
   add_modules b ms s = (None, s\<lparr>children := cs @ [Manager (mm\<lparr>mm_children := mm_children mm @ ms\<rparr>)]\<rparr>)"
proof (induction ms arbitrary: s mm)
  case Nil
  then show ?case by simp
next
  case (Cons m ms)
  show ?case
    using Cons.prems Cons.IH [of "s\<lparr>children := cs @ [Manager (mm\<lparr>mm_children := mm_children mm @ [m]\<rparr>)]\<rparr>" "mm\<lparr>mm_children := mm_children mm @ [m]\<rparr>"]
    by (simp add: add_module_existing)
qed

lemma add_module_fresh:
  assumes "managers (children s) = []"
  shows "add_module b m s =
     (None, s\<lparr>children := children s @
                 [Manager \<lparr>mm_source = Some (sid s), mm_scene = scene s, mm_children = [m],
                           mm_running = running s\<rparr>],
              events := events s @
                 (if running s
                  then [Start_called (Manager (ModuleManager (Some (sid s)) (scene s))),
                        Start_called (Manager ((ModuleManager (Some (sid s)) (scene s))\<lparr>mm_running := True\<rparr>))]
                  else [])\<rparr>)"
  using scan_mm_none [OF assms, of 0 None]
  by (simp add: add_module_def ModuleManager_def mm_start_def children_append_def
        handle_children_def dispatch_def Let_def)

section \<open>The data-refresh pass\<close>

lemma select_name_frame [simp]:
  "first (select_name t a v s) = first s"
  "data (select_name t a v s) = data s"
  "observer_id (select_name t a v s) = observer_id s"
  "lists (select_name t a v s) = lists s"
  "children (select_name t a v s) = children s"
  "running (select_name t a v s) = running s"
  "sid (select_name t a v s) = sid s"
  "scene (select_name t a v s) = scene s"
  "name (select_name t a v s) = name s"
  "next_addr (select_name t a v s) = next_addr s"
  by (simp_all add: select_name_def set_data_name_def dispatch_def split: option.splits)

lemma select_name_store [simp]:
  "observers (store (select_name t a v s) x) = observers (store s x)"
  "next_tag (store (select_name t a v s) x) = next_tag (store s x)"
  "arrays (store (select_name t a v s) x) = arrays (store s x)"
  "type_name (store (select_name t a v s) x) = type_name (store s x)"
  by (simp_all add: select_name_def set_data_name_def dispatch_def set_active_def
      split: option.splits)

lemma select_name_names:
  "names (select_name t a v s) t' a' = (if t' = t \<and> a' = a then v else names s t' a')"
  by (simp add: select_name_def set_data_name_def dispatch_def split: option.splits)


lemma select_name_events:
  "data s = Some addr \<Longrightarrow>
   events (select_name t a v s) =
     events s @ (if names s t a = v then [] else hook_events addr a t v)"
  by (simp add: select_name_def set_data_name_def dispatch_def hook_events_def)

lemma set_list_frame [simp]:
  "first (set_list t a vs s) = first s"
  "data (set_list t a vs s) = data s"
  "observer_id (set_list t a vs s) = observer_id s"
  "children (set_list t a vs s) = children s"
  "running (set_list t a vs s) = running s"
  "sid (set_list t a vs s) = sid s"
  "scene (set_list t a vs s) = scene s"
  "name (set_list t a vs s) = name s"
  "next_addr (set_list t a vs s) = next_addr s"
  by (simp_all add: set_list_def Let_def)

lemma set_list_store [simp]:
  "observers (store (set_list t a vs s) x) = observers (store s x)"
  "next_tag (store (set_list t a vs s) x) = next_tag (store s x)"
  "arrays (store (set_list t a vs s) x) = arrays (store s x)"
  "type_name (store (set_list t a vs s) x) = type_name (store s x)"
  by (simp_all add: set_list_def Let_def)


lemma set_list_names:
  "names (set_list t a vs s) t' a' =
     (if t' = t \<and> a' = a \<and> vs \<noteq> [] \<and> names s t a \<notin> set vs then hd vs else names s t' a')"
  by (simp add: set_list_def Let_def select_name_names)

lemma hd_not_self: "vs \<noteq> [] \<Longrightarrow> x \<notin> set vs \<Longrightarrow> x \<noteq> hd vs"
  by (cases vs) auto


lemma set_list_events:
  "data s = Some addr \<Longrightarrow>
   events (set_list t a vs s) =
     events s @ (if vs \<noteq> [] \<and> names s t a \<notin> set vs then hook_events addr a t (hd vs) else [])"
  by (auto simp: set_list_def Let_def select_name_events dest: hd_not_self)



lemma setup_attr_frame [simp]:
  "first (setup_attr addr at t a s) = first s"
  "data (setup_attr addr at t a s) = data s"
  "observer_id (setup_attr addr at t a s) = observer_id s"
  "children (setup_attr addr at t a s) = children s"
  "running (setup_attr addr at t a s) = running s"
  "sid (setup_attr addr at t a s) = sid s"
  "scene (setup_attr addr at t a s) = scene s"
  "name (setup_attr addr at t a s) = name s"
  "next_addr (setup_attr addr at t a s) = next_addr s"
  by (simp_all add: setup_attr_def Let_def)

lemma setup_attr_store [simp]:
  "observers (store (setup_attr addr at t a s) x) = observers (store s x)"
  "next_tag (store (setup_attr addr at t a s) x) = next_tag (store s x)"
  "arrays (store (setup_attr addr at t a s) x) = arrays (store s x)"
  "type_name (store (setup_attr addr at t a s) x) = type_name (store s x)"
  by (simp_all add: setup_attr_def Let_def set_active_def)


lemma setup_attr_names:
  "names (setup_attr addr at t a s) t' a' =
     (if t' = t \<and> a' = a then final at t a s else names s t' a')"
  by (cases "at a") (auto simp: setup_attr_def Let_def set_list_names final_def kept_def)


lemma setup_attr_events:
  "data s = Some addr \<Longrightarrow>
   events (setup_attr addr at t a s) = events s @ kind_events addr at t s a"
  by (cases "at a")
     (auto simp: setup_attr_def Let_def set_list_names set_list_events kind_events_def
        final_def kept_def)

lemma sdt_frame [simp]:
  "first (setup_data_traits addr at t s) = first s"
  "data (setup_data_traits addr at t s) = data s"
  "observer_id (setup_data_traits addr at t s) = observer_id s"
  "children (setup_data_traits addr at t s) = children s"
  "running (setup_data_traits addr at t s) = running s"
  "sid (setup_data_traits addr at t s) = sid s"
  "scene (setup_data_traits addr at t s) = scene s"
  "name (setup_data_traits addr at t s) = name s"
  "next_addr (setup_data_traits addr at t s) = next_addr s"
  by (simp_all add: setup_data_traits_def)

lemma sdt_store [simp]:
  "observers (store (setup_data_traits addr at t s) x) = observers (store s x)"
  "next_tag (store (setup_data_traits addr at t s) x) = next_tag (store s x)"
  "arrays (store (setup_data_traits addr at t s) x) = arrays (store s x)"
  "type_name (store (setup_data_traits addr at t s) x) = type_name (store s x)"
  by (simp_all add: setup_data_traits_def)

lemma final_setup_attr:
  "a' \<noteq> a \<or> t' \<noteq> t \<Longrightarrow> final at' t' a' (setup_attr addr at t a s) = final at' t' a' s"
  by (auto simp: final_def kept_def setup_attr_names)

lemma kind_events_setup_attr:
  "a' \<noteq> a \<or> t' \<noteq> t \<Longrightarrow>
   kind_events addr' at' t' (setup_attr addr at t a s) a' = kind_events addr' at' t' s a'"
  by (auto simp: kind_events_def setup_attr_names final_setup_attr)

lemma sdt_names:
  "names (setup_data_traits addr at t s) t' a' =
     (if t' = t then final at t a' s else names s t' a')"
  by (cases a') (simp_all add: setup_data_traits_def setup_attr_names final_setup_attr)



lemma sdt_events:
  "data s = Some addr \<Longrightarrow>
   events (setup_data_traits addr at t s) =
     events s @ kind_events addr at t s Scalars @ kind_events addr at t s Vectors @
       kind_events addr at t s Tensors"
  by (simp add: setup_data_traits_def setup_attr_events kind_events_setup_attr)

lemma final_sdt:
  "t' \<noteq> t \<Longrightarrow> final at' t' a' (setup_data_traits addr at t s) = final at' t' a' s"
  by (simp add: final_def kept_def sdt_names)

lemma kind_events_sdt:
  "t' \<noteq> t \<Longrightarrow>
   kind_events addr' at' t' (setup_data_traits addr at t s) a' = kind_events addr' at' t' s a'"
  by (simp add: kind_events_def sdt_names final_sdt)

lemma final_default:
  "final (arrays (store s addr) t) t a s = default_name s addr t a"
  by (simp add: final_def kept_def default_name_def bound_name_def reset_def)

lemma kind_events_pair:
  "kind_events addr (arrays (store s addr) t) t s a = pair_events s addr t a"
  by (simp add: kind_events_def pair_events_def reset_def final_default)





lemma update_data_frame [simp]:
  "data (update_data s) = data s"
  "observer_id (update_data s) = observer_id s"
  "children (update_data s) = children s"
  "running (update_data s) = running s"
  "sid (update_data s) = sid s"
  "scene (update_data s) = scene s"
  "name (update_data s) = name s"
  "next_addr (update_data s) = next_addr s"
  by (auto simp: update_data_def get_all_attributes_def Let_def split: option.splits)

lemma update_data_store [simp]:
  "observers (store (update_data s) x) = observers (store s x)"
  "next_tag (store (update_data s) x) = next_tag (store s x)"
  "arrays (store (update_data s) x) = arrays (store s x)"
  "type_name (store (update_data s) x) = type_name (store s x)"
  by (auto simp: update_data_def get_all_attributes_def Let_def split: option.splits)

lemma update_data_events:
  "data s = Some addr \<Longrightarrow>
   events (update_data s) =
     events s @ concat (map (\<lambda>t. concat (map (pair_events s addr t) [Scalars, Vectors, Tensors]))
                         [Point, Cell]) @ [Data_changed]"
  by (simp add: update_data_def get_all_attributes_def Let_def sdt_events kind_events_sdt
        kind_events_pair)

section \<open>Dataset replacement and subscriptions\<close>

lemma data_changed_data [simp]: "data (data_changed old new s) = data s"
  by (simp add: data_changed_def Let_def add_observer_def split: option.splits)

lemma data_changed_observer_id:
  "observer_id (data_changed old new s) =
     next_tag (store s new)"
  by (cases old) (simp_all add: data_changed_def Let_def add_observer_def remove_observer_def)

lemma data_changed_observers:
  "observers (store (data_changed old new s) x) =
     (if x = new
      then (if old = Some new then removeAll (observer_id s) (observers (store s x))
            else observers (store s x)) @ [next_tag (store s new)]
      else if old = Some x then removeAll (observer_id s) (observers (store s x))
      else observers (store s x))"
  by (cases old) (simp_all add: data_changed_def Let_def add_observer_def remove_observer_def)

lemma data_changed_next_tag:
  "next_tag (store (data_changed old new s) x) =
     (if x = new then next_tag (store s x) + 1 else next_tag (store s x))"
  by (cases old) (simp_all add: data_changed_def Let_def add_observer_def remove_observer_def)

lemma data_changed_events:
  "events (data_changed old new s) =
     events (update_data (s\<lparr>assigner := (assigner s)\<lparr>aa_input := Some new\<rparr>,
                            events := events s @ [AA_set_input new]\<rparr>)) @
     Data_changed #
     (case old of None \<Rightarrow> [] | Some ad \<Rightarrow> [Remove_observer ad (observer_id s)]) @
     [Add_observer new (next_tag (store s new)), Messenger_connect new]"
  by (cases old) (simp_all add: data_changed_def Let_def add_observer_def remove_observer_def)

lemma subscribed_init: "subscribed h (VTKDataSource i h n)"
  by (simp add: subscribed_def VTKDataSource_def)

lemma removeAll_fresh: "t \<notin> set xs \<Longrightarrow> removeAll t (xs @ [t]) = xs"
  by simp

lemma subscribed_set_data:
  assumes ok: "tags_ok h" and inv: "subscribed h s"
  shows "subscribed h (set_data new s)"
proof (cases "data s = Some new")
  case True
  then show ?thesis using inv by (simp add: set_data_def)
next
  case False
  let ?s1 = "s\<lparr>data := Some new\<rparr>"
  have sd: "set_data new s = data_changed (data s) new ?s1"
    using False by (simp add: set_data_def)
  have fresh: "\<And>a. data s = Some a \<Longrightarrow> observer_id s \<notin> set (observers (h a))"
  proof
    fix a assume a: "data s = Some a" and m: "observer_id s \<in> set (observers (h a))"
    from ok m have "observer_id s < next_tag (h a)" by (auto simp: tags_ok_def)
    moreover from inv a have "next_tag (h a) \<le> observer_id s" by (simp add: subscribed_def)
    ultimately show False by simp
  qed
  have obs: "\<And>a. observers (store s a) =
            observers (h a) @ (if data s = Some a then [observer_id s] else [])"
    using inv by (simp add: subscribed_def)
  have nt: "\<And>a. next_tag (h a) \<le> next_tag (store s a)"
    using inv by (simp add: subscribed_def)
  have c1: "\<forall>a. next_tag (h a) \<le> next_tag (store (set_data new s) a)"
  proof
    fix a show "next_tag (h a) \<le> next_tag (store (set_data new s) a)"
      using nt [of a] by (auto simp: sd data_changed_next_tag)
  qed
  have c2: "\<forall>a. observers (store (set_data new s) a) =
            observers (h a) @ (if data (set_data new s) = Some a
                               then [observer_id (set_data new s)] else [])"
  proof
    fix a
    show "observers (store (set_data new s) a) =
            observers (h a) @ (if data (set_data new s) = Some a
                               then [observer_id (set_data new s)] else [])"
      using False obs [of a] fresh [of a]
      by (auto simp: sd data_changed_observers data_changed_observer_id)
  qed
  have c3: "\<forall>a. data (set_data new s) = Some a \<longrightarrow>
            next_tag (h a) \<le> observer_id (set_data new s) \<and>
            observer_id (set_data new s) < next_tag (store (set_data new s) a)"
    using nt [of new] by (auto simp: sd data_changed_observer_id data_changed_next_tag)
  show ?thesis
    unfolding subscribed_def using c1 c2 c3 by blast
qed

lemma subscribed_fold:
  "tags_ok h \<Longrightarrow> subscribed h s \<Longrightarrow> subscribed h (fold set_data as s)"
  by (induction as arbitrary: s) (simp_all add: subscribed_set_data)

lemma set_data_data [simp]: "data (set_data new s) = Some new"
  by (simp add: set_data_def)

lemma fold_set_data_data: "as \<noteq> [] \<Longrightarrow> data (fold set_data as s) = Some (last as)"
  by (induction as arbitrary: s) auto

text \<open>
  Claim C3. Starting from a new instance, after any non-empty sequence of assignments
  to \<open>data\<close>: the current dataset is the last one assigned; it carries the
  subscriptions it had at the start and exactly one more, the one whose token the
  object holds, which is none of the earlier ones; every other dataset carries exactly
  the subscriptions it had at the start. In the hook, with a previous dataset, the
  removal of the old subscription comes before the new subscription is added.
\<close>

theorem one_subscription:
  assumes "tags_ok h" and "as \<noteq> []"
  shows "data (fold set_data as (VTKDataSource i h n)) = Some (last as) \<and>
         (\<forall>a. observers (store (fold set_data as (VTKDataSource i h n)) a) =
               observers (h a) @
               (if a = last as then [observer_id (fold set_data as (VTKDataSource i h n))]
                else [])) \<and>
         observer_id (fold set_data as (VTKDataSource i h n)) \<notin> set (observers (h (last as))) \<and>
         (\<forall>s old new.
            drop (length (events (update_data
                    (s\<lparr>assigner := (assigner s)\<lparr>aa_input := Some new\<rparr>,
                       events := events s @ [AA_set_input new]\<rparr>))))
                 (events (data_changed (Some old) new s)) =
              [Data_changed, Remove_observer old (observer_id s),
               Add_observer new (next_tag (store s new)), Messenger_connect new])"
proof -
  let ?s = "fold set_data as (VTKDataSource i h n)"
  have inv: "subscribed h ?s"
    using assms(1) subscribed_init subscribed_fold by blast
  have d: "data ?s = Some (last as)"
    using assms(2) by (rule fold_set_data_data)
  have o: "\<forall>a. observers (store ?s a) = observers (h a) @ (if a = last as then [observer_id ?s] else [])"
    using inv d by (auto simp: subscribed_def)
  have f: "observer_id ?s \<notin> set (observers (h (last as)))"
  proof
    assume "observer_id ?s \<in> set (observers (h (last as)))"
    with assms(1) have "observer_id ?s < next_tag (h (last as))" by (auto simp: tags_ok_def)
    moreover from inv d have "next_tag (h (last as)) \<le> observer_id ?s" by (simp add: subscribed_def)
    ultimately show False by simp
  qed
  have e: "\<forall>s old new.
            drop (length (events (update_data
                    (s\<lparr>assigner := (assigner s)\<lparr>aa_input := Some new\<rparr>,
                       events := events s @ [AA_set_input new]\<rparr>))))
                 (events (data_changed (Some old) new s)) =
              [Data_changed, Remove_observer old (observer_id s),
               Add_observer new (next_tag (store s new)), Messenger_connect new]"
    by (simp add: data_changed_events)
  show ?thesis using d o f e by blast
qed

section \<open>Selector hooks and the frame of the pass\<close>

text \<open>
  Claim C9. Called with \<open>None\<close>, the selector change hook returns at once: the state
  (the datasets with their active attributes, the assigner, the trace) is unchanged.
  Called with the empty string on an object with a dataset, it deactivates the
  attribute and fires \<open>data_changed\<close>, without a call on the assigner.
\<close>

theorem set_data_name_None:
  "set_data_name a t None s = (None, s) \<and>
   (data s = Some addr \<longrightarrow>
    set_data_name a t (Some []) s =
      (None, s\<lparr>store := (store s)(addr := set_active t a None (store s addr)),
                events := events s @ [Set_active addr t a None, Data_changed]\<rparr>))"
  by (simp add: set_data_name_def)

text \<open>
  Witness for C9.
\<close>

theorem set_data_name_None_witness:
  "data (fresh\<lparr>data := Some 0\<rparr>) = Some 0 \<and>
   set_data_name Vectors Cell None (fresh\<lparr>data := Some 0\<rparr>) = (None, fresh\<lparr>data := Some 0\<rparr>) \<and>
   active (store (snd (set_data_name Vectors Cell None (fresh\<lparr>data := Some 0\<rparr>))) 0) Cell Vectors
     = Some ''velocity'' \<and>
   active (store (snd (set_data_name Vectors Cell (Some []) (fresh\<lparr>data := Some 0\<rparr>))) 0) Cell Vectors
     = None \<and>
   events (snd (set_data_name Vectors Cell (Some []) (fresh\<lparr>data := Some 0\<rparr>)))
     = [Set_active 0 Cell Vectors None, Data_changed]"
  using set_data_name_None [of Vectors Cell "fresh\<lparr>data := Some 0\<rparr>" 0]
  by (simp add: fresh_def VTKDataSource_def demo_ds_def set_active_def)






section \<open>Restoration\<close>

lemma add_all_events: "\<forall>e\<in>set (snd (add_all b i sc run cs)). is_child_event e"
  by (induction cs) (auto simp: Let_def split: prod.splits option.splits)

lemma add_all_length: "length (fst (add_all b i sc run cs)) = length cs"
  by (induction cs) (auto simp: Let_def split: prod.splits option.splits)

lemma children_append_result:
  "\<exists>c' ev. children_append b c s = s\<lparr>children := children s @ [c'], events := events s @ ev\<rparr> \<and>
           (\<forall>e\<in>set ev. is_child_event e)"
proof -
  obtain cs ev where a: "add_all b (sid s) (scene s) (running s) [c] = (cs, ev)"
    by (cases "add_all b (sid s) (scene s) (running s) [c]")
  have "length cs = 1" using add_all_length [of b "sid s" "scene s" "running s" "[c]"] a by simp
  then obtain c' where cs: "cs = [c']" by (cases cs) auto
  have "\<forall>e\<in>set ev. is_child_event e"
    using add_all_events [of b "sid s" "scene s" "running s" "[c]"] a by simp
  moreover have "children_append b c s =
          s\<lparr>children := children s @ [c'], events := events s @ ev\<rparr>"
    using a cs by (simp add: children_append_def handle_children_def dispatch_def)
  ultimately show ?thesis by blast
qed

lemma attach_restored_result:
  "\<exists>cs' ev. attach_restored b kids s =
              s\<lparr>children := children s @ cs', events := events s @ ev\<rparr> \<and>
            length cs' = length kids \<and> (\<forall>e\<in>set ev. is_child_event e)"
proof (induction kids arbitrary: s)
  case Nil
  show ?case by (rule exI [of _ "[]"], rule exI [of _ "[]"]) simp
next
  case (Cons c kids)
  obtain c' ev where 1: "children_append b c s =
        s\<lparr>children := children s @ [c'], events := events s @ ev\<rparr>"
    and e1: "\<forall>e\<in>set ev. is_child_event e"
    using children_append_result by blast
  obtain cs' ev' where 2: "attach_restored b kids (s\<lparr>children := children s @ [c'], events := events s @ ev\<rparr>) =
        (s\<lparr>children := children s @ [c'], events := events s @ ev\<rparr>)
                 \<lparr>children := children (s\<lparr>children := children s @ [c'], events := events s @ ev\<rparr>) @ cs',
                  events := events (s\<lparr>children := children s @ [c'], events := events s @ ev\<rparr>) @ ev'\<rparr>"
    and l: "length cs' = length kids" and e2: "\<forall>e\<in>set ev'. is_child_event e"
    using Cons.IH by blast
  have "attach_restored b (c # kids) s =
          s\<lparr>children := children s @ (c' # cs'), events := events s @ (ev @ ev')\<rparr>"
    using 1 2 by simp
  moreover have "length (c' # cs') = length (c # kids)" using l by simp
  moreover have "\<forall>e\<in>set (ev @ ev'). is_child_event e" using e1 e2 by auto
  ultimately show ?case by blast
qed

lemma data_changed_children [simp]: "children (data_changed old new s) = children s"
  by (cases old) (simp_all add: data_changed_def Let_def add_observer_def)

lemma set_data_children [simp]: "children (set_data new s) = children s"
  by (simp add: set_data_def)

lemma pair_events_no_restore: "Set_state_fields \<notin> set (pair_events s addr t a)"
  by (simp add: pair_events_def hook_events_def)

lemma set_data_events_fresh:
  "data s \<noteq> Some new \<Longrightarrow>
   \<exists>ev. events (set_data new s) =
          events s @ AA_set_input new # ev @ [Add_observer new (next_tag (store s new)), Messenger_connect new] \<and>
        Set_state_fields \<notin> set ev"
  by (cases "data s")
     (auto simp: set_data_def data_changed_events update_data_events pair_events_no_restore)

text \<open>
  Claim C4, as amended. Restoring a record that holds a dataset returns normally and
  applies the state in this order: first the dataset (the whole replacement hook,
  from the rewiring of the assigner to the new subscription), then the remaining
  non-child fields, then the children. In the end the dataset is the restored one, the
  name is the persisted one, and each persisted child has been attached.
\<close>

theorem restore_order:
  assumes "st_data st = Some z" and "reader z = Some d" and "data s \<noteq> Some (next_addr s)"
  shows "\<exists>ev_data ev_children.
           fst (set_pure_state reader b st s) = None \<and>
           events (snd (set_pure_state reader b st s)) =
             events s @
             (AA_set_input (next_addr s) # ev_data @
                [Add_observer (next_addr s) (next_tag d), Messenger_connect (next_addr s)]) @
             [Set_state_fields] @
             (Handle_children_state # ev_children @ [Set_state_children]) \<and>
           Set_state_fields \<notin> set ev_data \<and>
           (\<forall>e\<in>set ev_children. is_child_event e) \<and>
           data (snd (set_pure_state reader b st s)) = Some (next_addr s) \<and>
           store (snd (set_pure_state reader b st s)) (next_addr s) =
             store (set_data (next_addr s)
                      (s\<lparr>store := (store s)(next_addr s := d),
                         next_addr := Suc (next_addr s)\<rparr>)) (next_addr s) \<and>
           name (snd (set_pure_state reader b st s)) = st_name st \<and>
           length (children (snd (set_pure_state reader b st s))) =
             length (children s) + length (st_children st)"
proof -
  let ?s0 = "s\<lparr>store := (store s)(next_addr s := d), next_addr := Suc (next_addr s)\<rparr>"
  let ?s1 = "set_data (next_addr s) ?s0"
  let ?s2 = "(set_state_fields st ?s1)\<lparr>events := events (set_state_fields st ?s1) @ [Handle_children_state]\<rparr>"
  obtain ev_data where ed: "events ?s1 =
       events s @ AA_set_input (next_addr s) # ev_data @
         [Add_observer (next_addr s) (next_tag d), Messenger_connect (next_addr s)]"
     and nd: "Set_state_fields \<notin> set ev_data"
    using set_data_events_fresh [of ?s0 "next_addr s"] assms(3) by auto
  obtain cs' evc where ar: "attach_restored b (st_children st) ?s2 =
        ?s2\<lparr>children := children ?s2 @ cs', events := events ?s2 @ evc\<rparr>"
     and l: "length cs' = length (st_children st)" and ce: "\<forall>e\<in>set evc. is_child_event e"
    using attach_restored_result by blast
  have ch: "children ?s1 = children s"
    by simp
  have r: "set_pure_state reader b st s =
         (None, ?s2\<lparr>children := children ?s2 @ cs', events := events ?s2 @ evc @ [Set_state_children]\<rparr>)"
    using assms(1,2) ar by (simp add: set_pure_state_def handle_children_state_def Let_def)
  have "events (snd (set_pure_state reader b st s)) =
             events s @
             (AA_set_input (next_addr s) # ev_data @
                [Add_observer (next_addr s) (next_tag d), Messenger_connect (next_addr s)]) @
             [Set_state_fields] @
             (Handle_children_state # evc @ [Set_state_children])"
    by (simp add: r set_state_fields_def ed)
  moreover have "fst (set_pure_state reader b st s) = None" by (simp add: r)
  moreover have "data (snd (set_pure_state reader b st s)) = Some (next_addr s)"
    by (simp add: r set_state_fields_def)
  moreover have "store (snd (set_pure_state reader b st s)) (next_addr s) = store ?s1 (next_addr s)"
    by (simp add: r set_state_fields_def)
  moreover have "name (snd (set_pure_state reader b st s)) = st_name st"
    by (simp add: r set_state_fields_def)
  moreover have "length (children (snd (set_pure_state reader b st s))) =
             length (children s) + length (st_children st)"
    by (simp add: r set_state_fields_def l ch)
  ultimately show ?thesis using nd ce by blast
qed

section \<open>\<open>add_module\<close>\<close>

lemma managers_none_filter:
  "managers cs = [] \<Longrightarrow> filter (\<lambda>c. \<not> is_module_manager c) cs = cs"
  by (induction cs rule: managers.induct) auto

text \<open>
  Claim C8. On a node without a \<open>ModuleManager\<close> child, \<open>add_module\<close> called for
  each module of a non-empty list returns normally each time and leaves exactly one
  \<open>ModuleManager\<close> child; it owns exactly these modules, in call order, and runs iff
  the node runs; the other children are as before. (The statement is about any number
  of calls, so it holds after each of them.)
\<close>

theorem add_module_one_manager:
  assumes "managers (children s) = []" and "ms \<noteq> []"
  shows "fst (add_modules b ms s) = None \<and>
         map mm_children (managers (children (snd (add_modules b ms s)))) = [ms] \<and>
         map mm_running (managers (children (snd (add_modules b ms s)))) =
           [running (snd (add_modules b ms s))] \<and>
         running (snd (add_modules b ms s)) = running s \<and>
         filter (\<lambda>c. \<not> is_module_manager c) (children (snd (add_modules b ms s))) = children s"
proof -
  obtain m ms' where ms: "ms = m # ms'" using assms(2) by (cases ms) auto
  let ?mm = "\<lparr>mm_source = Some (sid s), mm_scene = scene s, mm_children = [m],
               mm_running = running s\<rparr>"
  obtain ev where 1: "add_module b m s =
      (None, s\<lparr>children := children s @ [Manager ?mm], events := events s @ ev\<rparr>)"
    using add_module_fresh [OF assms(1), of b m] by blast
  have 2: "add_modules b ms s =
      (None, (s\<lparr>children := children s @ [Manager ?mm], events := events s @ ev\<rparr>)
               \<lparr>children := children s @ [Manager (?mm\<lparr>mm_children := mm_children ?mm @ ms'\<rparr>)]\<rparr>)"
    using 1 add_modules_existing [OF assms(1),
        of "s\<lparr>children := children s @ [Manager ?mm], events := events s @ ev\<rparr>" ?mm b ms']
    by (simp add: ms)
  show ?thesis
    unfolding 2 using assms(1) by (simp add: managers_append ms managers_none_filter)
qed

section \<open>Witnesses on the example objects\<close>

text \<open>
  Witness for C1: the first child raises, the second is started all the same, and the
  node runs.
\<close>

theorem start_starts_every_child_witness:
  "\<not> running (node False [Object (filter_obj 1 0), Object (filter_obj 2 1)]) \<and>
   fst (start flaky (node False [Object (filter_obj 1 0), Object (filter_obj 2 1)])) = None \<and>
   running (snd (start flaky (node False [Object (filter_obj 1 0), Object (filter_obj 2 1)]))) \<and>
   children (snd (start flaky (node False [Object (filter_obj 1 0), Object (filter_obj 2 1)]))) =
     [Object (filter_obj 1 0), Object (filter_obj 2 2)] \<and>
   events (snd (start flaky (node False [Object (filter_obj 1 0), Object (filter_obj 2 1)]))) =
     [Start_called (Object (filter_obj 1 0)), Exception_logged (Raised ''start failed''),
      Start_called (Object (filter_obj 2 1))]"
  using start_starts_every_child [of "node False [Object (filter_obj 1 0), Object (filter_obj 2 1)]" flaky]
  by (simp add: node_def flaky_def filter_obj_def start_trace_def)

text \<open>
  Witness for C5, on a running and on a stopped node.
\<close>

theorem start_stop_idempotent_witness:
  "running (node True [Object (filter_obj 1 0)]) \<and>
   start flaky (node True [Object (filter_obj 1 0)]) = (None, node True [Object (filter_obj 1 0)]) \<and>
   \<not> running (node False [Object (filter_obj 1 0)]) \<and>
   stop flaky (node False [Object (filter_obj 1 0)]) = (None, node False [Object (filter_obj 1 0)]) \<and>
   twice (start flaky) (node False [Object (filter_obj 1 0)]) =
     start flaky (node False [Object (filter_obj 1 0)]) \<and>
   twice (stop flaky) (node True [Object (filter_obj 1 0)]) =
     stop flaky (node True [Object (filter_obj 1 0)]) \<and>
   fst (stop flaky (node True [Object (filter_obj 2 1)])) = None \<and>
   stop flaky (snd (stop flaky (node True [Object (filter_obj 2 1)]))) =
     (None, snd (stop flaky (node True [Object (filter_obj 2 1)])))"
  using start_stop_idempotent [of flaky "node True [Object (filter_obj 1 0)]"]
    start_stop_idempotent [of flaky "node False [Object (filter_obj 1 0)]"]
    start_stop_idempotent [of flaky "node True [Object (filter_obj 2 1)]"]
  by (simp add: node_def flaky_def filter_obj_def stop_def Base_stop_def)

text \<open>
  Witness for C6: the second of three children raises on \<open>stop\<close>; and a node with two
  children that stop normally.
\<close>

theorem stop_propagates_witness:
  "running (node True [Object (filter_obj 2 1), Object (filter_obj 1 0), Object (filter_obj 3 1)]) \<and>
   children (node True [Object (filter_obj 2 1), Object (filter_obj 1 0), Object (filter_obj 3 1)]) =
     [Object (filter_obj 2 1)] @ Object (filter_obj 1 0) # [Object (filter_obj 3 1)] \<and>
   fst (child_stop flaky (Object (filter_obj 2 1))) = None \<and>
   fst (child_stop flaky (Object (filter_obj 1 0))) = Some (Raised ''stop failed'') \<and>
   stop flaky (node True [Object (filter_obj 2 1), Object (filter_obj 1 0), Object (filter_obj 3 1)]) =
     (Some (Raised ''stop failed''),
      (node True [Object (filter_obj 2 3), Object (filter_obj 1 0), Object (filter_obj 3 1)])
        \<lparr>events := [Stop_called (Object (filter_obj 2 1)), Stop_called (Object (filter_obj 1 0))]\<rparr>) \<and>
   fst (child_stop flaky (Object (filter_obj 3 1))) = None \<and>
   stop flaky (node True [Object (filter_obj 2 1), Object (filter_obj 3 1)]) =
     (None,
      (node False [Object (filter_obj 2 3), Object (filter_obj 3 3)])
        \<lparr>events := [Stop_called (Object (filter_obj 2 1)), Stop_called (Object (filter_obj 3 1))]\<rparr>)"
  using stop_propagates [of "node True [Object (filter_obj 2 1), Object (filter_obj 1 0), Object (filter_obj 3 1)]"
      "[Object (filter_obj 2 1)]" "Object (filter_obj 1 0)" "[Object (filter_obj 3 1)]" flaky
      "Raised ''stop failed''"]
    stop_propagates [of "node True [Object (filter_obj 2 1), Object (filter_obj 3 1)]" "[]"
      "Object (filter_obj 2 1)" "[Object (filter_obj 3 1)]" flaky "Raised ''stop failed''"]
  by (simp add: node_def flaky_def filter_obj_def)

text \<open>
  Counterexample to C7 as stated: a node (not running) has two children and its
  \<open>children\<close> are replaced by the empty list. The \<open>stop\<close> of the first removed child
  raises, which ends the hook (the dispatch logs the exception), and \<open>stop\<close> is never
  called on the second removed child: it is left as it was.
\<close>

theorem removed_child_not_stopped:
  "fst (children_assign flaky [] (node False [Object (filter_obj 1 0), Object (filter_obj 3 1)])) =
     [Object (filter_obj 1 0), Object (filter_obj 3 1)] \<and>
   children (snd (children_assign flaky []
        (node False [Object (filter_obj 1 0), Object (filter_obj 3 1)]))) = [] \<and>
   events (snd (children_assign flaky []
        (node False [Object (filter_obj 1 0), Object (filter_obj 3 1)]))) =
     [Stop_called (Object (filter_obj 1 0)), Handler_failed (Raised ''stop failed'')] \<and>
   Stop_called (Object (filter_obj 3 1)) \<notin>
     set (events (snd (children_assign flaky []
        (node False [Object (filter_obj 1 0), Object (filter_obj 3 1)]))))"
  by (simp add: children_assign_def handle_children_def dispatch_def node_def flaky_def
      filter_obj_def)

text \<open>
  Witness for the amended C7.
\<close>

theorem handle_children_removed_witness:
  "fst (child_stop flaky (Object (filter_obj 2 1))) = None \<and>
   [Object (filter_obj 2 1), Object (filter_obj 1 0), Object (filter_obj 3 1)] =
     [Object (filter_obj 2 1)] @ Object (filter_obj 1 0) # [Object (filter_obj 3 1)] \<and>
   fst (child_stop flaky (Object (filter_obj 1 0))) = Some (Raised ''stop failed'') \<and>
   handle_children flaky
     [Object (filter_obj 2 1), Object (filter_obj 1 0), Object (filter_obj 3 1)] [] (node False []) =
     (Some (Raised ''stop failed''),
      [Object (filter_obj 2 3), Object (filter_obj 1 0), Object (filter_obj 3 1)], [],
      (node False [])\<lparr>events := [Stop_called (Object (filter_obj 2 1)),
                                 Stop_called (Object (filter_obj 1 0))]\<rparr>)"
  using handle_children_removed [where pre = "[Object (filter_obj 2 1)]" and b = flaky
      and removed = "[Object (filter_obj 2 1), Object (filter_obj 1 0), Object (filter_obj 3 1)]"
      and c = "Object (filter_obj 1 0)" and post = "[Object (filter_obj 3 1)]" and added = "[]"
      and s = "node False []"]
  by (simp add: handle_children_def node_def flaky_def filter_obj_def)

text \<open>
  Witness for C8: two modules added to a running node with one filter child.
\<close>

theorem add_module_one_manager_witness:
  "managers (children (node True [Object (filter_obj 1 1)])) = [] \<and>
   [module_obj 10, module_obj 11] \<noteq> [] \<and>
   managers (children (snd (add_modules flaky [module_obj 10, module_obj 11]
                              (node True [Object (filter_obj 1 1)])))) =
     [\<lparr>mm_source = Some 0, mm_scene = Some 7, mm_children = [module_obj 10, module_obj 11],
       mm_running = True\<rparr>]"
  using add_module_one_manager [of "node True [Object (filter_obj 1 1)]"
      "[module_obj 10, module_obj 11]" flaky]
  by (simp add: node_def filter_obj_def add_module_def ModuleManager_def mm_start_def
      children_append_def handle_children_def dispatch_def)







text \<open>
  Witness for C3: dataset 0, then dataset 1, then dataset 0 again.
\<close>

theorem one_subscription_witness:
  "tags_ok (\<lambda>a. demo_ds) \<and> [0, 1, 0 :: nat] \<noteq> [] \<and>
   data (fold set_data [0, 1, 0] fresh) = Some 0 \<and>
   observers (store (fold set_data [0, 1, 0] fresh) 0) = [observer_id (fold set_data [0, 1, 0] fresh)] \<and>
   observers (store (fold set_data [0, 1, 0] fresh) 1) = []"
proof -
  have ok: "tags_ok (\<lambda>a. demo_ds)" by (simp add: tags_ok_def demo_ds_def)
  have ne: "[0, 1, 0 :: nat] \<noteq> []" by simp
  have o: "\<forall>a. observers (store (fold set_data [0, 1, 0] fresh) a) =
               observers demo_ds @
               (if a = last [0, 1, 0] then [observer_id (fold set_data [0, 1, 0] fresh)] else [])"
    and d: "data (fold set_data [0, 1, 0] fresh) = Some (last [0, 1, 0])"
    using one_subscription [OF ok ne, of 0 5] unfolding fresh_def by blast+
  have "observers (store (fold set_data [0, 1, 0] fresh) 0) =
          [observer_id (fold set_data [0, 1, 0] fresh)]"
    using spec [OF o, of 0] by (simp add: demo_ds_def)
  moreover have "observers (store (fold set_data [0, 1, 0] fresh) 1) = []"
    using spec [OF o, of 1] by (simp add: demo_ds_def)
  ultimately show ?thesis using ok ne d by simp
qed

lemma data_changed_node [simp]:
  "running (data_changed old new s) = running s"
  "sid (data_changed old new s) = sid s"
  "scene (data_changed old new s) = scene s"
  by (cases old; simp add: data_changed_def Let_def add_observer_def)+

lemma demo_restore_events:
  "events (snd (set_pure_state demo_reader flaky demo_state fresh)) =
     [AA_set_input 5,
      Set_active 5 Point Scalars (Some ''temperature''), AA_assign ''temperature'' Scalars Point,
      AA_update, Data_changed, Data_changed, Add_observer 5 1, Messenger_connect 5,
      Set_state_fields, Handle_children_state, Set_state_children]"
  by (simp add: set_pure_state_def demo_reader_def demo_state_def fresh_def VTKDataSource_def
      set_data_def data_changed_events update_data_events pair_events_def default_name_def
      bound_name_def reset_def hook_events_def
      demo_ds_def handle_children_state_def set_state_fields_def children_append_def
      handle_children_def dispatch_def filter_obj_def Let_def)

text \<open>
  Witness for the amended C4.
\<close>

theorem restore_order_witness:
  "st_data demo_state = Some ''gz'' \<and> demo_reader ''gz'' = Some demo_ds \<and>
   data fresh \<noteq> Some (next_addr fresh) \<and>
   fst (set_pure_state demo_reader flaky demo_state fresh) = None \<and>
   data (snd (set_pure_state demo_reader flaky demo_state fresh)) = Some 5 \<and>
   name (snd (set_pure_state demo_reader flaky demo_state fresh)) = ''my data'' \<and>
   length (children (snd (set_pure_state demo_reader flaky demo_state fresh))) = 1"
  using restore_order [of demo_state "''gz''" demo_reader demo_ds fresh flaky]
  by (auto simp: demo_state_def demo_reader_def fresh_def VTKDataSource_def)

lemma demo_restore_name:
  "name (snd (set_pure_state demo_reader flaky demo_state fresh)) = ''my data''"
  by (simp add: set_pure_state_def demo_reader_def demo_state_def fresh_def VTKDataSource_def
      set_data_def handle_children_state_def set_state_fields_def children_append_def
      handle_children_def dispatch_def filter_obj_def Let_def)

text \<open>
  Counterexample to C4 as stated: in the trace of a restoration, the dataset is
  assigned before the non-child fields are set, not after; accordingly the name is
  the persisted name, not the one the replacement hook computes.
\<close>

theorem fields_not_first:
  "precedes (AA_set_input 5) Set_state_fields
     (events (snd (set_pure_state demo_reader flaky demo_state fresh))) \<and>
   \<not> precedes Set_state_fields (AA_set_input 5)
     (events (snd (set_pure_state demo_reader flaky demo_state fresh))) \<and>
   name (snd (set_pure_state demo_reader flaky demo_state fresh)) = ''my data''"
  by (simp add: demo_restore_events demo_restore_name)

end
